theory Spec2Isabelle
  imports Main "HOL-Library.Word" "HOL-Library.Sublist"
begin

section \<open>JavaScript strings\<close>

text \<open>
  A JavaScript string is a sequence of UTF-16 code units; \<open>length\<close>, \<open>substring\<close> and the
  regular expressions of \<open>simple-rss.js\<close> (none has the \<open>u\<close> flag) all work on code units.
  An ASCII literal is written \<open>js ''...''\<close>; the Turkish letters of the source's literals
  are given by their code units.
\<close>

type_synonym jschar = "16 word"
type_synonym jsstring = "jschar list"

definition js :: "string \<Rightarrow> jsstring" where
  "js s = map of_char s"

text \<open>
  A property that may be missing (\<open>undefined\<close>/\<open>null\<close>) is an \<open>option\<close>. Of the values
  a string property can take, \<open>undefined\<close>, \<open>null\<close> and \<open>''\<close> are falsy.
\<close>

definition truthy :: "jsstring option \<Rightarrow> bool" where
  "truthy v = (case v of None \<Rightarrow> False | Some s \<Rightarrow> s \<noteq> [])"

text \<open>\<open>v || d\<close> with a string literal \<open>d\<close> on the right.\<close>

definition or_default :: "jsstring option \<Rightarrow> jsstring \<Rightarrow> jsstring" where
  "or_default v d = (case v of None \<Rightarrow> d | Some s \<Rightarrow> if s = [] then d else s)"

text \<open>\<open>a || b\<close> with two optional properties.\<close>

definition or_else :: "jsstring option \<Rightarrow> jsstring option \<Rightarrow> jsstring option" where
  "or_else a b = (if truthy a then a else b)"

text \<open>
  The class \<open>\s\<close> of a JavaScript regular expression, which is also what
  \<open>String.prototype.trim\<close> strips: WhiteSpace (TAB, VT, FF, SP, NBSP, ZWNBSP and the
  category Zs) and LineTerminator (LF, CR, LS, PS).
\<close>

definition is_space :: "jschar \<Rightarrow> bool" where
  "is_space c =
     (c \<in> {0x09, 0x0A, 0x0B, 0x0C, 0x0D, 0x20, 0xA0, 0x1680, 0x2028, 0x2029,
            0x202F, 0x205F, 0x3000, 0xFEFF}
      \<or> (0x2000 \<le> c \<and> c \<le> 0x200A))"

definition trim :: "jsstring \<Rightarrow> jsstring" where
  "trim s = rev (dropWhile is_space (rev (dropWhile is_space s)))"

text \<open>
  \<open>s.replace(/<[^>]*>/g, '')\<close>. At a \<open><\<close> the pattern matches up to the first \<open>>\<close>
  after it, when there is one (\<open>[^>]*\<close> cannot step over a \<open>>\<close>, and backtracking only
  shortens it onto a character that is not \<open>>\<close>); the match is removed and the scan goes
  on behind it. At any other position, and at a \<open><\<close> with no \<open>>\<close> behind it, the
  character is kept.
\<close>

function remove_tags :: "jsstring \<Rightarrow> jsstring" where
  "remove_tags [] = []"
| "remove_tags (c # cs) =
     (if c = of_char CHR ''<'' \<and> of_char CHR ''>'' \<in> set cs
      then remove_tags (tl (dropWhile (\<lambda>d. d \<noteq> of_char CHR ''>'') cs))
      else c # remove_tags cs)"
  by pat_completeness auto
termination
proof (relation "measure length")
  show "wf (measure length)" by simp
next
  fix c :: jschar and cs :: jsstring
  have "length (tl (dropWhile (\<lambda>d. d \<noteq> of_char CHR ''>'') cs)) \<le> length cs"
    using length_dropWhile_le [of "\<lambda>d. d \<noteq> of_char CHR ''>''" cs] by simp
  then show "(tl (dropWhile (\<lambda>d. d \<noteq> of_char CHR ''>'') cs), c # cs) \<in> measure length"
    by simp
next
  fix c :: jschar and cs :: jsstring
  show "(cs, c # cs) \<in> measure length" by simp
qed

text \<open>
  \<open>s.replace(/pat/g, rep)\<close> for a pattern that is a literal, non-empty string: matches
  are taken left to right, do not overlap, and the replacement is not scanned again.
\<close>

fun replace_all :: "'a list \<Rightarrow> 'a list \<Rightarrow> 'a list \<Rightarrow> 'a list" where
  "replace_all pat rep [] = []"
| "replace_all pat rep (c # cs) =
     (if prefix pat (c # cs) then rep @ replace_all pat rep (drop (length pat - 1) cs)
      else c # replace_all pat rep cs)"

text \<open>\<open>s.replace(/\s+/g, ' ')\<close>: every maximal run of white space becomes one SP.\<close>

function collapse_spaces :: "jsstring \<Rightarrow> jsstring" where
  "collapse_spaces [] = []"
| "collapse_spaces (c # cs) =
     (if is_space c then of_char CHR '' '' # collapse_spaces (dropWhile is_space cs)
      else c # collapse_spaces cs)"
  by pat_completeness auto
termination
proof (relation "measure length")
  show "wf (measure length)" by simp
next
  fix c :: jschar and cs :: jsstring
  have "length (dropWhile is_space cs) \<le> length cs" by (rule length_dropWhile_le)
  then show "(dropWhile is_space cs, c # cs) \<in> measure length" by simp
next
  fix c :: jschar and cs :: jsstring
  show "(cs, c # cs) \<in> measure length" by simp
qed

section \<open>SimpleRSSGenerator.cleanDescription\<close>

text \<open>The six replacements of lines 141 to 146, in the order the source chains them.\<close>

definition decode_entities :: "jsstring \<Rightarrow> jsstring" where
  "decode_entities clean =
     replace_all (js ''&nbsp;'') (js '' '')
       (replace_all (js ''&#39;'') [0x27]
         (replace_all (js ''&quot;'') (js ''\"'')
           (replace_all (js ''&gt;'') (js ''>'')
             (replace_all (js ''&lt;'') (js ''<'')
               (replace_all (js ''&amp;'') (js ''&'') clean)))))"

text \<open>The value of \<open>clean\<close> at line 148, before the length check.\<close>

definition sanitized :: "jsstring \<Rightarrow> jsstring" where
  "sanitized html = trim (collapse_spaces (decode_entities (remove_tags html)))"

definition cleanDescription :: "jsstring option \<Rightarrow> jsstring" where
  "cleanDescription h =
     (case h of
        None \<Rightarrow> []
      | Some html \<Rightarrow>
          if html = [] then []
          else let clean = sanitized html
               in if length clean > 500 then take 497 clean @ js ''...'' else clean)"

text \<open>
  What the hypotheses of the idempotence property speak of. A tag is a match of
  \<open><[^>]*>\<close>: a string has one exactly when a \<open>>\<close> stands somewhere behind its first
  \<open><\<close>. The entities are the six patterns of \<open>decode_entities\<close>.
\<close>

definition has_tag :: "jsstring \<Rightarrow> bool" where
  "has_tag s = (of_char CHR ''>'' \<in> set (dropWhile (\<lambda>c. c \<noteq> of_char CHR ''<'') s))"

definition entities :: "jsstring list" where
  "entities = [js ''&amp;'', js ''&lt;'', js ''&gt;'', js ''&quot;'', js ''&#39;'', js ''&nbsp;'']"

definition has_entity :: "jsstring \<Rightarrow> bool" where
  "has_entity s = list_ex (\<lambda>p. sublist p s) entities"


text \<open>The fixed points of \<open>collapse_spaces\<close>: white space only as single SPs.\<close>

fun spaced :: "jsstring \<Rightarrow> bool" where
  "spaced [] = True"
| "spaced [c] = (if is_space c then c = of_char CHR '' '' else True)"
| "spaced (c # d # cs) =
     ((if is_space c then c = of_char CHR '' '' \<and> \<not> is_space d else True) \<and> spaced (d # cs))"

section \<open>The data model\<close>

text \<open>
  A product of the upstream response, with the properties \<open>createRSSItem\<close> reads. The
  ones it tests before use are optional; \<open>title\<close>, \<open>handle\<close> and \<open>updated_at\<close> are read
  unguarded and are strings in the upstream payload.
\<close>

record image =
  src :: jsstring

record variant =
  price :: jsstring

record product =
  title :: jsstring
  body_html :: "jsstring option"
  description :: "jsstring option"
  handle :: jsstring
  updated_at :: jsstring
  images :: "image list option"
  variants :: "variant list option"
  product_type :: "jsstring option"
  tags :: "jsstring option"

text \<open>The \<open>config\<close> argument of \<open>generateRSS\<close> and \<open>createRSSItem\<close> (default \<open>{}\<close>).\<close>

record config =
  cfg_title :: "jsstring option"
  cfg_description :: "jsstring option"
  cfg_link :: "jsstring option"
  cfg_language :: "jsstring option"

text \<open>
  The object handed to the XML builder. A property \<open>createRSSItem\<close> sets only under a
  condition is an \<open>option\<close>: \<open>None\<close> when the property is not on the object.
\<close>

record guid =
  isPermaLink :: jsstring
  guid_text :: jsstring

record media_content =
  url :: jsstring
  mime_type :: jsstring
  medium :: jsstring

record media_price =
  currency :: jsstring
  price_text :: jsstring

record rss_item =
  item_title :: jsstring
  item_description :: jsstring
  item_link :: jsstring
  item_guid :: guid
  pubDate :: jsstring
  dc_creator :: jsstring
  item_media_content :: "media_content list option"
  item_media_thumbnail :: "jsstring option"
  item_media_price :: "media_price option"
  category :: "jsstring option"
  dc_subject :: "jsstring list option"

record channel =
  ch_title :: jsstring
  ch_description :: jsstring
  ch_link :: jsstring
  ch_language :: jsstring
  lastBuildDate :: jsstring
  generator :: jsstring
  item :: "rss_item list"

record rss =
  version :: jsstring
  xmlns_media :: jsstring
  xmlns_dc :: jsstring
  rss_channel :: channel

text \<open>The request \<open>axios.get\<close> is called with.\<close>

record http_request =
  req_url :: jsstring
  req_headers :: "(jsstring \<times> jsstring) list"
  req_params :: "(jsstring \<times> jsstring) list"

text \<open>
  What the program takes from outside itself: the clock (\<open>new Date().toUTCString()\<close>),
  the date conversion \<open>new Date(s).toUTCString()\<close>, the \<open>buildObject\<close> of the xml2js
  builder and \<open>axios.get\<close>. The last two may throw: \<open>Inl\<close> carries the error's message.
\<close>

record runtime =
  now_utc :: jsstring
  toUTCString :: "jsstring \<Rightarrow> jsstring"
  buildObject :: "rss \<Rightarrow> jsstring + jsstring"
  axios_get :: "http_request \<Rightarrow> jsstring + product list"

section \<open>SimpleRSSGenerator\<close>

text \<open>The literals \<open>'Ma\<dots>aza \<dots>r\<dots>nleri'\<close> and \<open>'Ma\<dots>azam\<dots>zdaki t\<dots>m \<dots>r\<dots>nler'\<close>.\<close>

definition default_title :: jsstring where
  "default_title = js ''Ma'' @ [0x11F] @ js ''aza '' @ [0xDC] @ js ''r'' @ [0xFC] @ js ''nleri''"

definition default_description :: jsstring where
  "default_description =
     js ''Ma'' @ [0x11F] @ js ''azam'' @ [0x131] @ js ''zdaki t'' @ [0xFC] @ js ''m ''
       @ [0xFC] @ js ''r'' @ [0xFC] @ js ''nler''"

text \<open>
  \<open>tags.split(',')\<close>: the segment before the first comma, then the split of what
  follows it; a string with no comma is one segment.
\<close>

function split_commas :: "jsstring \<Rightarrow> jsstring list" where
  "split_commas s =
     (case dropWhile (\<lambda>c. c \<noteq> of_char CHR '','') s of
        [] \<Rightarrow> [takeWhile (\<lambda>c. c \<noteq> of_char CHR '','') s]
      | _ # rest \<Rightarrow> takeWhile (\<lambda>c. c \<noteq> of_char CHR '','') s # split_commas rest)"
  by pat_completeness auto
termination
proof (relation "measure length")
  show "wf (measure length)" by simp
next
  fix s :: jsstring and x rest
  assume "dropWhile (\<lambda>c. c \<noteq> of_char CHR '','') s = x # rest"
  then have "Suc (length rest) \<le> length s"
    using length_dropWhile_le [of "\<lambda>c. c \<noteq> of_char CHR '',''" s] by simp
  then show "(rest, s) \<in> measure length" by simp
qed

declare split_commas.simps [simp del]

definition createRSSItem :: "runtime \<Rightarrow> product \<Rightarrow> config \<Rightarrow> rss_item" where
  "createRSSItem rt product config =
     (let baseUrl = or_default (cfg_link config) (js ''https://shop.myshopify.com'');
          item0 = \<lparr> item_title = title product,
                    item_description =
                      cleanDescription (or_else (body_html product) (description product)),
                    item_link = baseUrl @ js ''/products/'' @ handle product,
                    item_guid = \<lparr> isPermaLink = js ''true'',
                                  guid_text = baseUrl @ js ''/products/'' @ handle product \<rparr>,
                    pubDate = toUTCString rt (updated_at product),
                    dc_creator = or_default (cfg_title config) default_title,
                    item_media_content = None,
                    item_media_thumbnail = None,
                    item_media_price = None,
                    category = None,
                    dc_subject = None \<rparr>;
          item1 = (case images product of
                     Some (first # others) \<Rightarrow>
                       item0 \<lparr> item_media_content :=
                                 Some (map (\<lambda>image. \<lparr> url = src image,
                                                        mime_type = js ''image/jpeg'',
                                                        medium = js ''image'' \<rparr>)
                                         (first # others)),
                               item_media_thumbnail := Some (src first) \<rparr>
                   | _ \<Rightarrow> item0);
          item2 = (case variants product of
                     Some (variant # _) \<Rightarrow>
                       item1 \<lparr> item_media_price :=
                                 Some \<lparr> currency = js ''TRY'', price_text = price variant \<rparr> \<rparr>
                   | _ \<Rightarrow> item1);
          item3 = (if truthy (product_type product)
                   then item2 \<lparr> category := product_type product \<rparr> else item2);
          item4 = (case tags product of
                     Some t \<Rightarrow>
                       if t \<noteq> [] then item3 \<lparr> dc_subject := Some (map trim (split_commas t)) \<rparr>
                       else item3
                   | None \<Rightarrow> item3)
      in item4)"

text \<open>The object literal \<open>rssObject\<close> of \<open>generateRSS\<close>, and the call of the builder on it.\<close>

definition rssObject :: "runtime \<Rightarrow> product list \<Rightarrow> config \<Rightarrow> rss" where
  "rssObject rt products config =
     \<lparr> version = js ''2.0'',
       xmlns_media = js ''http://search.yahoo.com/mrss/'',
       xmlns_dc = js ''http://purl.org/dc/elements/1.1/'',
       rss_channel =
         \<lparr> ch_title = or_default (cfg_title config) default_title,
           ch_description = or_default (cfg_description config) default_description,
           ch_link = or_default (cfg_link config) (js ''https://shop.myshopify.com''),
           ch_language = or_default (cfg_language config) (js ''tr''),
           lastBuildDate = now_utc rt,
           generator = js ''Simple Shopify RSS Generator'',
           item = map (\<lambda>product. createRSSItem rt product config) products \<rparr> \<rparr>"

definition generateRSS :: "runtime \<Rightarrow> product list \<Rightarrow> config \<Rightarrow> jsstring + jsstring" where
  "generateRSS rt products config = buildObject rt (rssObject rt products config)"

section \<open>SimpleShopifyAPI\<close>

record shopify_api =
  baseURL :: jsstring
  headers :: "(jsstring \<times> jsstring) list"

definition SimpleShopifyAPI :: "jsstring \<Rightarrow> jsstring \<Rightarrow> shopify_api" where
  "SimpleShopifyAPI shopDomain accessToken =
     \<lparr> baseURL = js ''https://'' @ shopDomain @ js ''/admin/api/2023-10'',
       headers = [(js ''X-Shopify-Access-Token'', accessToken),
                  (js ''Content-Type'', js ''application/json'')] \<rparr>"

text \<open>
  \<open>getAllProducts\<close> makes one call of \<open>axios.get\<close> and returns the products of the
  response, or rethrows the error. The second component is the list of outbound requests
  the call has made. The products of a response are an array of product objects, as the
  upstream API sends them; a response of another shape is outside this model.
\<close>

definition getAllProducts ::
    "runtime \<Rightarrow> shopify_api \<Rightarrow> (jsstring + product list) \<times> http_request list" where
  "getAllProducts rt api =
     (let request = \<lparr> req_url = baseURL api @ js ''/products.json'',
                       req_headers = headers api,
                       req_params = [(js ''limit'', js ''250''),
                                     (js ''status'', js ''active''),
                                     (js ''published_status'', js ''published'')] \<rparr>
      in (axios_get rt request, [request]))"

section \<open>The routes\<close>

text \<open>The variables of \<open>process.env\<close> that the routes read.\<close>

record env =
  SHOPIFY_SHOP_DOMAIN :: "jsstring option"
  SHOPIFY_ACCESS_TOKEN :: "jsstring option"
  RSS_TITLE :: "jsstring option"
  RSS_DESCRIPTION :: "jsstring option"

text \<open>
  A response: the status (200 unless \<open>res.status\<close> sets it), the Content-Type when the
  route sets one with \<open>res.set\<close>, and the body: the two JSON objects the routes send, or
  the feed.
\<close>

datatype body =
    Error_json (error: jsstring) (message: jsstring)
  | Count_json (count: nat) (count_message: jsstring)
  | Feed (feed: jsstring)

record response =
  status :: nat
  content_type :: "jsstring option"
  body :: body

text \<open>The decimal digits of \<open>products.length\<close> in a template literal.\<close>

fun digits :: "nat \<Rightarrow> jsstring" where
  "digits n = (if n < 10 then [of_nat (48 + n)] else digits (n div 10) @ [of_nat (48 + n mod 10)])"

declare digits.simps [simp del]

text \<open>The literals of the error responses.\<close>

definition config_missing_error :: jsstring where
  "config_missing_error = js ''Shopify konfig'' @ [0xFC] @ js ''rasyonu eksik''"

definition config_missing_message :: jsstring where
  "config_missing_message =
     js ''SHOPIFY_SHOP_DOMAIN ve SHOPIFY_ACCESS_TOKEN environment variables'' @ [0x27]
       @ js ''lar'' @ [0x131] @ js ''n'' @ [0x131] @ js '' ayarlay'' @ [0x131] @ js ''n''"

definition rss_failed_error :: jsstring where
  "rss_failed_error = js ''RSS feed olu'' @ [0x15F] @ js ''turulamad'' @ [0x131]"

definition pinterest_failed_error :: jsstring where
  "pinterest_failed_error = js ''Pinterest RSS feed olu'' @ [0x15F] @ js ''turulamad'' @ [0x131]"

definition count_failed_error :: jsstring where
  "count_failed_error =
     [0xDC] @ js ''r'' @ [0xFC] @ js ''n say'' @ [0x131] @ js ''s'' @ [0x131] @ js '' al'' @ [0x131]
       @ js ''namad'' @ [0x131]"

text \<open>
  \<open>app.get('/rss', \<dots>)\<close>, lines 167 to 204. The result is the response and the outbound
  requests made while handling the request.
\<close>

definition rss_route :: "runtime \<Rightarrow> env \<Rightarrow> response \<times> http_request list" where
  "rss_route rt e =
     (let shopDomain = SHOPIFY_SHOP_DOMAIN e;
          accessToken = SHOPIFY_ACCESS_TOKEN e
      in if \<not> truthy shopDomain \<or> \<not> truthy accessToken
         then (\<lparr> status = 500, content_type = None,
                  body = Error_json config_missing_error config_missing_message \<rparr>, [])
         else
           let shopifyAPI = SimpleShopifyAPI (the shopDomain) (the accessToken);
               (result, calls) = getAllProducts rt shopifyAPI
           in case result of
                Inl msg \<Rightarrow>
                  (\<lparr> status = 500, content_type = None,
                      body = Error_json rss_failed_error msg \<rparr>, calls)
              | Inr products \<Rightarrow>
                  (case generateRSS rt products
                          \<lparr> cfg_title = Some (or_default (RSS_TITLE e) default_title),
                            cfg_description =
                              Some (or_default (RSS_DESCRIPTION e) default_description),
                            cfg_link = Some (js ''https://'' @ the shopDomain),
                            cfg_language = Some (js ''tr'') \<rparr> of
                     Inl msg \<Rightarrow>
                       (\<lparr> status = 500, content_type = None,
                           body = Error_json rss_failed_error msg \<rparr>, calls)
                   | Inr rssFeed \<Rightarrow>
                       (\<lparr> status = 200,
                           content_type = Some (js ''application/rss+xml; charset=utf-8''),
                           body = Feed rssFeed \<rparr>, calls)))"

text \<open>\<open>app.get('/rss/pinterest', \<dots>)\<close>, lines 207 to 243.\<close>

definition pinterest_route :: "runtime \<Rightarrow> env \<Rightarrow> response \<times> http_request list" where
  "pinterest_route rt e =
     (let shopDomain = SHOPIFY_SHOP_DOMAIN e;
          accessToken = SHOPIFY_ACCESS_TOKEN e
      in if \<not> truthy shopDomain \<or> \<not> truthy accessToken
         then (\<lparr> status = 500, content_type = None,
                  body = Error_json config_missing_error config_missing_message \<rparr>, [])
         else
           let shopifyAPI = SimpleShopifyAPI (the shopDomain) (the accessToken);
               (result, calls) = getAllProducts rt shopifyAPI
           in case result of
                Inl msg \<Rightarrow>
                  (\<lparr> status = 500, content_type = None,
                      body = Error_json pinterest_failed_error msg \<rparr>, calls)
              | Inr products \<Rightarrow>
                  (case generateRSS rt products
                          \<lparr> cfg_title = Some (or_default (RSS_TITLE e) default_title),
                            cfg_description =
                              Some (or_default (RSS_DESCRIPTION e) default_description),
                            cfg_link = Some (js ''https://'' @ the shopDomain),
                            cfg_language = Some (js ''tr'') \<rparr> of
                     Inl msg \<Rightarrow>
                       (\<lparr> status = 500, content_type = None,
                           body = Error_json pinterest_failed_error msg \<rparr>, calls)
                   | Inr rssFeed \<Rightarrow>
                       (\<lparr> status = 200,
                           content_type = Some (js ''application/rss+xml; charset=utf-8''),
                           body = Feed rssFeed \<rparr>, calls)))"

text \<open>\<open>app.get('/api/products/count', \<dots>)\<close>, lines 246 to 271.\<close>

definition count_route :: "runtime \<Rightarrow> env \<Rightarrow> response \<times> http_request list" where
  "count_route rt e =
     (let shopDomain = SHOPIFY_SHOP_DOMAIN e;
          accessToken = SHOPIFY_ACCESS_TOKEN e
      in if \<not> truthy shopDomain \<or> \<not> truthy accessToken
         then (\<lparr> status = 500, content_type = None,
                  body = Error_json config_missing_error config_missing_message \<rparr>, [])
         else
           let shopifyAPI = SimpleShopifyAPI (the shopDomain) (the accessToken);
               (result, calls) = getAllProducts rt shopifyAPI
           in case result of
                Inl msg \<Rightarrow>
                  (\<lparr> status = 500, content_type = None,
                      body = Error_json count_failed_error msg \<rparr>, calls)
              | Inr products \<Rightarrow>
                  (\<lparr> status = 200, content_type = None,
                      body = Count_json (length products)
                               (digits (length products) @ js '' aktif '' @ [0xFC] @ js ''r''
                                  @ [0xFC] @ js ''n bulundu'') \<rparr>, calls))"

section \<open>Auxiliary definitions\<close>

text \<open>\<open>Array.prototype.join(',')\<close>, the inverse of the split; it serves to say what the
  segments of a tags string are.\<close>

fun join_commas :: "jsstring list \<Rightarrow> jsstring" where
  "join_commas [] = []"
| "join_commas [x] = x"
| "join_commas (x # y # ys) = x @ of_char CHR '','' # join_commas (y # ys)"

text \<open>Concrete inputs on which the theorems below are evaluated.\<close>

definition example_runtime :: runtime where
  "example_runtime =
     \<lparr> now_utc = js ''Tue, 03 Nov 2026 10:00:00 GMT'',
       toUTCString = (\<lambda>s. s),
       buildObject = (\<lambda>r. Inr (ch_title (rss_channel r))),
       axios_get = (\<lambda>request. Inr []) \<rparr>"

definition example_product :: product where
  "example_product =
     \<lparr> title = js ''Mug'', body_html = Some (js ''<p>A  mug</p>''), description = None,
       handle = js ''mug'', updated_at = js ''Mon, 02 Nov 2026 09:00:00 GMT'',
       images = Some [\<lparr> src = js ''https://cdn/mug-1.png'' \<rparr>, \<lparr> src = js ''https://cdn/mug-2.png'' \<rparr>],
       variants = Some [\<lparr> price = js ''10.00'' \<rparr>, \<lparr> price = js ''12.00'' \<rparr>],
       product_type = Some (js ''Kitchen''), tags = Some (js ''a, b ,c'') \<rparr>"

definition minimal_product :: product where
  "minimal_product =
     \<lparr> title = js ''Cup'', body_html = None, description = None,
       handle = js ''cup'', updated_at = js ''Mon, 02 Nov 2026 09:00:00 GMT'',
       images = None, variants = None, product_type = None, tags = None \<rparr>"

definition empty_config :: config where
  "empty_config = \<lparr> cfg_title = None, cfg_description = None, cfg_link = None, cfg_language = None \<rparr>"

definition example_env :: env where
  "example_env =
     \<lparr> SHOPIFY_SHOP_DOMAIN = Some (js ''demo.myshopify.com''),
       SHOPIFY_ACCESS_TOKEN = Some (js ''shpat_1''),
       RSS_TITLE = Some (js ''Demo''), RSS_DESCRIPTION = None \<rparr>"

section \<open>Facts about the string operations\<close>

lemma is_space_SP [simp]: "is_space 32"
  by (simp add: is_space_def)

lemma has_tag_Nil [simp]: "\<not> has_tag []"
  by (simp add: has_tag_def)

lemma has_tag_Cons:
  "has_tag (c # cs) = (if c = of_char CHR ''<'' then of_char CHR ''>'' \<in> set cs else has_tag cs)"
  by (simp add: has_tag_def)

lemma has_tag_tail: "has_tag cs \<Longrightarrow> has_tag (c # cs)"
  unfolding has_tag_Cons has_tag_def using set_dropWhileD by fastforce

lemma has_tag_append_left: "has_tag v \<Longrightarrow> has_tag (a @ v)"
  by (induction a) (simp_all add: has_tag_tail)

lemma has_tag_append_right: "has_tag u \<Longrightarrow> has_tag (u @ b)"
  by (induction u) (auto simp: has_tag_Cons split: if_splits)

lemma has_tag_sublist: "sublist u x \<Longrightarrow> has_tag u \<Longrightarrow> has_tag x"
  unfolding sublist_def using has_tag_append_left has_tag_append_right by blast

text \<open>The scan removes nothing from a string without a tag.\<close>

lemma remove_tags_id: "\<not> has_tag s \<Longrightarrow> remove_tags s = s"
proof (induction s)
  case Nil
  show ?case by simp
next
  case (Cons c cs)
  from Cons.prems have "\<not> has_tag cs" using has_tag_tail by blast
  with Cons show ?case by (auto simp: has_tag_Cons)
qed

text \<open>
  \<open>has_tag\<close> says that the string has a match of \<open><[^>]*>\<close>, and \<open>remove_tags\<close> removes
  the leftmost match and goes on behind it.
\<close>

lemma has_tag_iff:
  "has_tag s \<longleftrightarrow> (\<exists>pre mid post. s = pre @ [60] @ mid @ [62] @ post \<and> 62 \<notin> set mid)"
proof
  assume "has_tag s"
  define d where "d = dropWhile (\<lambda>c. c \<noteq> 60) s"
  have in_d: "62 \<in> set d" using \<open>has_tag s\<close> by (simp add: has_tag_def d_def)
  then obtain x d' where d: "d = x # d'" by (cases d) auto
  then have "x = 60" using hd_dropWhile [of "\<lambda>c. c \<noteq> 60" s] by (auto simp: d_def)
  with in_d d have "62 \<in> set d'" by simp
  then obtain mid post where "d' = mid @ 62 # post" "62 \<notin> set mid"
    by (auto dest: split_list_first)
  with d \<open>x = 60\<close> have "s = takeWhile (\<lambda>c. c \<noteq> 60) s @ [60] @ mid @ [62] @ post"
    using takeWhile_dropWhile_id [of "\<lambda>c. c \<noteq> 60" s] by (simp add: d_def)
  with \<open>62 \<notin> set mid\<close> show "\<exists>pre mid post. s = pre @ [60] @ mid @ [62] @ post \<and> 62 \<notin> set mid"
    by blast
next
  assume "\<exists>pre mid post. s = pre @ [60] @ mid @ [62] @ post \<and> 62 \<notin> set mid"
  then obtain pre mid post where s: "s = pre @ [60] @ mid @ [62] @ post" by blast
  have "has_tag (60 # mid @ 62 # post)" by (simp add: has_tag_Cons)
  then show "has_tag s" using has_tag_append_left [of "60 # mid @ 62 # post" pre] s by simp
qed

lemma remove_tags_leftmost:
  assumes "60 \<notin> set pre" and "62 \<notin> set mid"
  shows "remove_tags (pre @ [60] @ mid @ [62] @ post) = pre @ remove_tags post"
proof -
  have "dropWhile (\<lambda>d. d \<noteq> 62) (mid @ 62 # post) = 62 # post"
    using assms(2) by (simp add: dropWhile_append)
  then have "remove_tags (60 # mid @ 62 # post) = remove_tags post" by simp
  moreover have "remove_tags (pre @ ys) = pre @ remove_tags ys" for ys
    using assms(1) by (induction pre) auto
  ultimately show ?thesis by simp
qed

lemma replace_all_absent: "\<not> sublist p s \<Longrightarrow> replace_all p r s = s"
proof (induction s)
  case Nil
  show ?case by simp
next
  case (Cons c cs)
  have "\<not> prefix p (c # cs)" using Cons.prems prefix_imp_sublist by blast
  moreover have "\<not> sublist p cs" using Cons.prems by (auto simp: sublist_Cons_right)
  ultimately show ?case using Cons.IH by simp
qed

lemma sublist_dropWhile: "sublist (dropWhile P x) x"
  by (metis suffix_dropWhile suffix_imp_sublist)

lemma trim_sublist: "sublist (trim x) x"
proof -
  have "prefix (rev (dropWhile is_space (rev y))) y" for y :: jsstring
    by (metis suffix_dropWhile suffix_to_prefix rev_rev_ident)
  then have "sublist (trim x) (dropWhile is_space x)"
    unfolding trim_def by (rule prefix_imp_sublist)
  then show ?thesis
    using sublist_dropWhile sublist_order.order.trans by blast
qed

lemma length_collapse_spaces: "length (collapse_spaces s) \<le> length s"
proof (induction s rule: collapse_spaces.induct)
  case 1
  show ?case by simp
next
  case (2 c cs)
  show ?case
  proof (cases "is_space c")
    case True
    with 2 have "length (collapse_spaces (dropWhile is_space cs)) \<le> length (dropWhile is_space cs)"
      by simp
    also have "\<dots> \<le> length cs" by (rule length_dropWhile_le)
    finally show ?thesis using True by simp
  next
    case False
    with 2 show ?thesis by simp
  qed
qed

lemma length_trim: "length (trim x) \<le> length x"
proof -
  have "length (trim x) \<le> length (dropWhile is_space x)"
    unfolding trim_def using length_dropWhile_le [of is_space "rev (dropWhile is_space x)"] by simp
  also have "\<dots> \<le> length x" by (rule length_dropWhile_le)
  finally show ?thesis .
qed

lemma set_collapse_spaces: "set (collapse_spaces s) \<subseteq> insert (of_char CHR '' '') (set s)"
proof (induction s rule: collapse_spaces.induct)
  case 1
  show ?case by simp
next
  case (2 c cs)
  show ?case
  proof (cases "is_space c")
    case True
    with 2 have "set (collapse_spaces (dropWhile is_space cs))
        \<subseteq> insert (of_char CHR '' '') (set (dropWhile is_space cs))" by simp
    moreover have "set (dropWhile is_space cs) \<subseteq> set cs" using set_dropWhileD by fastforce
    ultimately show ?thesis using True by auto
  next
    case False
    with 2 show ?thesis by auto
  qed
qed

text \<open>Collapsing white space makes no tag and no occurrence of a pattern without white space.\<close>

lemma has_tag_collapse_spaces: "has_tag (collapse_spaces s) \<Longrightarrow> has_tag s"
proof (induction s rule: collapse_spaces.induct)
  case 1
  then show ?case by simp
next
  case (2 c cs)
  show ?case
  proof (cases "is_space c")
    case True
    with "2.prems" have "has_tag (collapse_spaces (dropWhile is_space cs))"
      by (simp add: has_tag_Cons)
    with 2 True have "has_tag (dropWhile is_space cs)" by simp
    then have "has_tag cs" using has_tag_sublist sublist_dropWhile by blast
    then show ?thesis by (rule has_tag_tail)
  next
    case False
    show ?thesis
    proof (cases "c = of_char CHR ''<''")
      case True
      with False "2.prems" have "of_char CHR ''>'' \<in> set (collapse_spaces cs)"
        by (simp add: has_tag_Cons)
      then have "of_char CHR ''>'' \<in> set cs" using set_collapse_spaces [of cs] by auto
      with True show ?thesis by (simp add: has_tag_Cons)
    next
      case neq: False
      with False "2.prems" have "has_tag (collapse_spaces cs)" by (simp add: has_tag_Cons)
      with 2 False have "has_tag cs" by simp
      then show ?thesis by (rule has_tag_tail)
    qed
  qed
qed

lemma prefix_collapse_spaces:
  "\<forall>c\<in>set p. \<not> is_space c \<Longrightarrow> prefix p (collapse_spaces s) \<Longrightarrow> prefix p s"
proof (induction p arbitrary: s)
  case Nil
  show ?case by simp
next
  case (Cons a p)
  from Cons.prems obtain c cs where s: "s = c # cs"
    by (cases s) auto
  have a: "\<not> is_space a" using Cons.prems by simp
  show ?case
  proof (cases "is_space c")
    case True
    with Cons.prems s a show ?thesis by auto
  next
    case False
    with Cons.prems s have "a = c" "prefix p (collapse_spaces cs)" by auto
    with Cons.IH [of cs] Cons.prems s show ?thesis by simp
  qed
qed

lemma sublist_collapse_spaces:
  "\<forall>c\<in>set p. \<not> is_space c \<Longrightarrow> sublist p (collapse_spaces s) \<Longrightarrow> sublist p s"
proof (induction s rule: collapse_spaces.induct)
  case 1
  then show ?case by simp
next
  case (2 c cs)
  show ?case
  proof (cases "prefix p (collapse_spaces (c # cs))")
    case True
    with "2.prems"(1) have "prefix p (c # cs)" by (rule prefix_collapse_spaces)
    then show ?thesis by (rule prefix_imp_sublist)
  next
    case noprefix: False
    show ?thesis
    proof (cases "is_space c")
      case True
      with noprefix "2.prems" have "sublist p (collapse_spaces (dropWhile is_space cs))"
        by (simp add: sublist_Cons_right)
      with 2 True have "sublist p (dropWhile is_space cs)" by simp
      then have "sublist p cs" using sublist_dropWhile sublist_order.order.trans by blast
      then show ?thesis by (simp add: sublist_Cons_right)
    next
      case False
      with noprefix "2.prems" have "sublist p (collapse_spaces cs)"
        by (simp add: sublist_Cons_right)
      with 2 False have "sublist p cs" by simp
      then show ?thesis by (simp add: sublist_Cons_right)
    qed
  qed
qed

text \<open>The result of \<open>collapse_spaces\<close> is a fixed point of it, and so is every piece of it.\<close>

lemma spaced_collapse_spaces: "spaced (collapse_spaces s)"
proof (induction s rule: collapse_spaces.induct)
  case 1
  show ?case by simp
next
  case (2 c cs)
  show ?case
  proof (cases "is_space c")
    case True
    then have ih: "spaced (collapse_spaces (dropWhile is_space cs))" using 2 by simp
    show ?thesis
    proof (cases "dropWhile is_space cs")
      case Nil
      show ?thesis using True by (simp add: Nil)
    next
      case (Cons d ds)
      then have "\<not> is_space d" using hd_dropWhile [of is_space cs] by auto
      then show ?thesis using True ih by (simp add: Cons)
    qed
  next
    case False
    then have "spaced (collapse_spaces cs)" using 2 by simp
    with False show ?thesis by (cases "collapse_spaces cs") simp_all
  qed
qed

lemma spaced_fixed: "spaced x \<Longrightarrow> collapse_spaces x = x"
  by (induction x rule: spaced.induct) (auto split: if_splits)

lemma spaced_tl: "spaced (c # cs) \<Longrightarrow> spaced cs"
  by (cases cs) simp_all

lemma spaced_suffix: "spaced (xs @ ys) \<Longrightarrow> spaced ys"
  by (induction xs) (auto dest: spaced_tl)

lemma spaced_prefix: "spaced (xs @ ys) \<Longrightarrow> spaced xs"
proof (induction xs rule: spaced.induct)
  case 1
  show ?case by simp
next
  case (2 c)
  then show ?case by (cases ys) (auto split: if_splits)
next
  case (3 c d cs)
  then show ?case by (auto split: if_splits)
qed

lemma spaced_sublist: "sublist u x \<Longrightarrow> spaced x \<Longrightarrow> spaced u"
  unfolding sublist_def using spaced_prefix spaced_suffix by blast

lemma trim_idem: "trim (trim x) = trim x"
proof -
  define y where "y = dropWhile is_space x"
  define z where "z = rev (dropWhile is_space (rev y))"
  have z: "trim x = z" by (simp add: trim_def y_def z_def)
  have "prefix z y" unfolding z_def
    by (metis suffix_dropWhile suffix_to_prefix rev_rev_ident)
  then obtain w where w: "y = z @ w" by (auto simp: prefix_def)
  have "dropWhile is_space z = z"
  proof (cases z)
    case Nil
    then show ?thesis by simp
  next
    case (Cons a as)
    with w have "y = a # as @ w" by simp
    then have "\<not> is_space a" using hd_dropWhile [of is_space x] by (auto simp: y_def)
    with Cons show ?thesis by simp
  qed
  then have "trim z = rev (dropWhile is_space (rev z))" by (simp add: trim_def)
  also have "\<dots> = z" by (simp add: z_def)
  finally show ?thesis using z by simp
qed

section \<open>Facts about the split and about createRSSItem\<close>

lemma split_commas_Nil [simp]: "split_commas [] = [[]]"
  by (simp add: split_commas.simps)

lemma split_commas_Cons [simp]:
  "split_commas (c # cs) =
     (if c = of_char CHR '','' then [] # split_commas cs
      else (c # hd (split_commas cs)) # tl (split_commas cs))"
proof (cases "c = 44")
  case True
  then show ?thesis by (subst split_commas.simps) simp
next
  case False
  show ?thesis
  proof (cases "dropWhile (\<lambda>c. c \<noteq> 44) cs")
    case Nil
    have "split_commas cs = [takeWhile (\<lambda>c. c \<noteq> 44) cs]"
      by (subst split_commas.simps) (simp add: Nil)
    moreover have "split_commas (c # cs) = [c # takeWhile (\<lambda>c. c \<noteq> 44) cs]"
      using False by (subst split_commas.simps) (simp add: Nil)
    ultimately show ?thesis using False by simp
  next
    case (Cons x rest)
    have "split_commas cs = takeWhile (\<lambda>c. c \<noteq> 44) cs # split_commas rest"
      by (subst split_commas.simps) (simp add: Cons)
    moreover have "split_commas (c # cs) = (c # takeWhile (\<lambda>c. c \<noteq> 44) cs) # split_commas rest"
      using False by (subst split_commas.simps) (simp add: Cons)
    ultimately show ?thesis using False by simp
  qed
qed

lemma split_commas_not_Nil [simp]: "split_commas s \<noteq> []"
  by (subst split_commas.simps) (simp split: list.splits)

lemma length_split_commas: "length (split_commas s) = Suc (count_list s (of_char CHR '',''))"
  by (induction s) auto

lemma join_split_commas: "join_commas (split_commas s) = s"
proof (induction s)
  case Nil
  show ?case by simp
next
  case (Cons c cs)
  obtain x xs where x: "split_commas cs = x # xs" by (cases "split_commas cs") auto
  with Cons show ?case by (cases xs) auto
qed

lemma split_commas_no_comma: "seg \<in> set (split_commas s) \<Longrightarrow> of_char CHR '','' \<notin> set seg"
proof (induction s arbitrary: seg)
  case Nil
  then show ?case by simp
next
  case (Cons c cs)
  obtain x xs where x: "split_commas cs = x # xs" by (cases "split_commas cs") auto
  with Cons show ?case by (auto split: if_splits)
qed

lemma last_split_commas: "s \<noteq> [] \<Longrightarrow> last s = of_char CHR '','' \<Longrightarrow> last (split_commas s) = []"
proof (induction s)
  case Nil
  then show ?case by simp
next
  case (Cons c cs)
  obtain x xs where x: "split_commas cs = x # xs" by (cases "split_commas cs") auto
  show ?case
  proof (cases cs)
    case Nil
    with Cons.prems show ?thesis by simp
  next
    case (Cons d ds)
    with Cons.prems Cons.IH x show ?thesis by (cases xs) (auto split: if_splits)
  qed
qed

lemma trim_Nil [simp]: "trim [] = []"
  by (simp add: trim_def)

lemma createRSSItem_dc_subject:
  "dc_subject (createRSSItem rt p cfg) =
     (case tags p of None \<Rightarrow> None
      | Some t \<Rightarrow> if t = [] then None else Some (map trim (split_commas t)))"
  by (simp add: createRSSItem_def Let_def split: option.splits list.splits)

lemma createRSSItem_media:
  "item_media_content (createRSSItem rt p cfg) =
     (case images p of
        Some (first # others) \<Rightarrow>
          Some (map (\<lambda>image. \<lparr> url = src image, mime_type = js ''image/jpeg'', medium = js ''image'' \<rparr>)
                 (first # others))
      | _ \<Rightarrow> None)"
  "item_media_thumbnail (createRSSItem rt p cfg) =
     (case images p of Some (first # others) \<Rightarrow> Some (src first) | _ \<Rightarrow> None)"
  by (simp_all add: createRSSItem_def Let_def split: option.splits list.splits)

lemma createRSSItem_link:
  "item_link (createRSSItem rt p cfg) =
     or_default (cfg_link cfg) (js ''https://shop.myshopify.com'') @ js ''/products/'' @ handle p"
  by (simp add: createRSSItem_def Let_def split: option.splits list.splits)

lemma double_comma_split: "sublist [44, 44] s \<Longrightarrow> [] \<in> set (tl (split_commas s))"
proof (induction s)
  case Nil
  then show ?case by simp
next
  case (Cons c cs)
  show ?case
  proof (cases "prefix [44, 44] (c # cs)")
    case True
    then obtain r where "c = 44" "cs = 44 # r" by (cases cs) auto
    then show ?thesis by simp
  next
    case False
    with Cons.prems have "sublist [44, 44] cs" unfolding sublist_Cons_right by blast
    then have "[] \<in> set (tl (split_commas cs))" by (rule Cons.IH)
    then show ?thesis by (auto dest: list.set_sel(2) [rotated])
  qed
qed

section \<open>Facts about cleanDescription\<close>

lemma entities_no_space: "p \<in> set entities \<Longrightarrow> c \<in> set p \<Longrightarrow> \<not> is_space c"
  by (auto simp: entities_def js_def is_space_def)

lemma decode_entities_id: "\<not> has_entity s \<Longrightarrow> decode_entities s = s"
  by (simp add: has_entity_def entities_def decode_entities_def replace_all_absent)

lemma has_entity_clean: "has_entity (trim (collapse_spaces s)) \<Longrightarrow> has_entity s"
proof -
  assume "has_entity (trim (collapse_spaces s))"
  then obtain p where p: "p \<in> set entities" "sublist p (trim (collapse_spaces s))"
    by (auto simp: has_entity_def list_ex_iff)
  from p(2) have "sublist p (collapse_spaces s)"
    using trim_sublist sublist_order.order.trans by blast
  moreover have "\<forall>c\<in>set p. \<not> is_space c" using p(1) entities_no_space by blast
  ultimately have "sublist p s" using sublist_collapse_spaces by blast
  with p(1) show "has_entity s" by (auto simp: has_entity_def list_ex_iff)
qed

lemma has_tag_clean: "has_tag (trim (collapse_spaces s)) \<Longrightarrow> has_tag s"
  using has_tag_sublist [OF trim_sublist] has_tag_collapse_spaces by blast

lemma clean_fixed:
  "trim (collapse_spaces (trim (collapse_spaces s))) = trim (collapse_spaces s)"
proof -
  have "spaced (trim (collapse_spaces s))"
    using spaced_sublist [OF trim_sublist] spaced_collapse_spaces by blast
  then have "collapse_spaces (trim (collapse_spaces s)) = trim (collapse_spaces s)"
    by (rule spaced_fixed)
  then show ?thesis by (simp add: trim_idem)
qed

lemma length_clean: "length (trim (collapse_spaces s)) \<le> length s"
  using length_trim [of "collapse_spaces s"] length_collapse_spaces [of s] by arith

lemma cleanDescription_short:
  "length (sanitized s) \<le> 500 \<Longrightarrow> cleanDescription (Some s) = sanitized s"
  by (simp add: cleanDescription_def sanitized_def decode_entities_def trim_def)

lemma dropWhile_none: "\<forall>c\<in>set s. \<not> P c \<Longrightarrow> dropWhile P s = s"
  by (cases s) auto

lemma spaced_no_space: "\<forall>c\<in>set s. \<not> is_space c \<Longrightarrow> spaced s"
  by (induction s rule: spaced.induct) auto

text \<open>A string without \<open><\<close>, \<open>&\<close> and white space is left as it is by the three steps.\<close>

lemma sanitized_plain:
  assumes "\<forall>c\<in>set s. c \<noteq> of_char CHR ''<'' \<and> c \<noteq> of_char CHR ''&'' \<and> \<not> is_space c"
  shows "sanitized s = s"
proof -
  have dw: "dropWhile (\<lambda>c. c \<noteq> of_char CHR ''<'') s = []" using assms by auto
  have "\<not> has_tag s" unfolding has_tag_def dw by simp
  moreover have "\<not> has_entity s"
  proof
    assume "has_entity s"
    then obtain p where "p \<in> set entities" "sublist p s"
      by (auto simp: has_entity_def list_ex_iff)
    then have "of_char CHR ''&'' \<in> set s"
      using set_mono_sublist [of p s] by (auto simp: entities_def js_def)
    with assms show False by auto
  qed
  moreover have "collapse_spaces s = s" using assms by (simp add: spaced_no_space spaced_fixed)
  moreover have "trim s = s" using assms by (simp add: trim_def dropWhile_none)
  ultimately show ?thesis by (simp add: sanitized_def remove_tags_id decode_entities_id)
qed

section \<open>The length of a cleaned description\<close>

text \<open>
  C3. The result of \<open>cleanDescription\<close> has at most 500 code units, whatever the argument
  (a missing one included). When the sanitized form of the input (tags removed, entities
  decoded, white space collapsed and trimmed) has more than 500, the result is the first
  497 code units of that form followed by the three dots, 500 code units in all.
\<close>

theorem cleanDescription_length:
  "length (cleanDescription h) \<le> 500 \<and>
   (500 < length (sanitized html) \<longrightarrow>
      cleanDescription (Some html) = take 497 (sanitized html) @ js ''...'' \<and>
      length (cleanDescription (Some html)) = 500)"
proof -
  have "length (cleanDescription h) \<le> 500"
    by (auto simp: cleanDescription_def Let_def js_def split: option.splits)
  moreover have "cleanDescription (Some html) = take 497 (sanitized html) @ js ''...''"
    if "500 < length (sanitized html)"
  proof -
    from that have "html \<noteq> []"
      by (auto simp: sanitized_def decode_entities_def trim_def)
    with that show ?thesis by (simp add: cleanDescription_def)
  qed
  moreover have "length (take 497 (sanitized html) @ js ''...'') = 500"
    if "500 < length (sanitized html)"
    using that by (simp add: js_def)
  ultimately show ?thesis by simp
qed

theorem cleanDescription_length_witness:
  "length (cleanDescription (Some (js ''<b>x</b>''))) \<le> 500 \<and>
   500 < length (sanitized (replicate 501 (of_char CHR ''a''))) \<and>
   cleanDescription (Some (replicate 501 (of_char CHR ''a''))) =
     replicate 497 (of_char CHR ''a'') @ js ''...'' \<and>
   length (cleanDescription (Some (replicate 501 (of_char CHR ''a'')))) = 500"
  using cleanDescription_length [of "Some (js ''<b>x</b>'')" "replicate 501 (of_char CHR ''a'')"]
  by (simp add: sanitized_plain is_space_def js_def)

section \<open>Idempotence on clean text\<close>

text \<open>
  C5. On a string with no tag, with no occurrence of any of the six entities and of at
  most 500 code units, cleaning the result of \<open>cleanDescription\<close> again gives the same
  string.
\<close>

theorem cleanDescription_idempotent:
  assumes "\<not> has_tag s" and "\<not> has_entity s" and "length s \<le> 500"
  shows "cleanDescription (Some (cleanDescription (Some s))) = cleanDescription (Some s)"
proof -
  define t where "t = trim (collapse_spaces s)"
  have san: "sanitized s = t"
    using assms(1,2) by (simp add: sanitized_def t_def remove_tags_id decode_entities_id)
  have len: "length t \<le> 500"
    using length_clean [of s] assms(3) by (simp add: t_def)
  have first: "cleanDescription (Some s) = t"
    using cleanDescription_short [of s] san len by simp
  have "\<not> has_tag t" "\<not> has_entity t"
    using assms(1,2) has_tag_clean has_entity_clean by (auto simp: t_def)
  then have "sanitized t = t"
    by (simp add: sanitized_def remove_tags_id decode_entities_id) (simp add: t_def clean_fixed)
  then have "cleanDescription (Some t) = t"
    using cleanDescription_short [of t] len by simp
  with first show ?thesis by simp
qed

theorem cleanDescription_idempotent_witness:
  "\<not> has_tag (js ''a  > b '') \<and> \<not> has_entity (js ''a  > b '') \<and> length (js ''a  > b '') \<le> 500 \<and>
   cleanDescription (Some (js ''a  > b '')) = js ''a > b'' \<and>
   cleanDescription (Some (cleanDescription (Some (js ''a  > b '')))) =
     cleanDescription (Some (js ''a  > b ''))"
proof -
  have 1: "\<not> has_tag (js ''a  > b '')" by (simp add: has_tag_def js_def)
  have 2: "\<not> has_entity (js ''a  > b '')"
    by (simp add: has_entity_def entities_def js_def sublist_code)
  have 3: "length (js ''a  > b '') \<le> 500" by (simp add: js_def)
  have 4: "cleanDescription (Some (js ''a  > b '')) = js ''a > b''"
    by (simp add: cleanDescription_def sanitized_def decode_entities_def trim_def js_def is_space_def)
  from 1 2 3 4 cleanDescription_idempotent [OF 1 2 3] show ?thesis by simp
qed

section \<open>The channel's defaults\<close>

text \<open>
  C1, as the code has it. The defaults of the channel are the source's own literals: the
  title \<open>'Ma\<dots>aza \<dots>r\<dots>nleri'\<close> and the description \<open>'Ma\<dots>azam\<dots>zdaki t\<dots>m \<dots>r\<dots>nler'\<close>
  (Turkish, written here by their code units), the link \<open>'https://shop.myshopify.com'\<close>
  and the language \<open>'tr'\<close>. Each is used when the field of the configuration is
  missing or empty.
\<close>

theorem rssObject_channel_defaults:
  "(\<not> truthy (cfg_title cfg) \<longrightarrow>
      ch_title (rss_channel (rssObject rt products cfg))
        = js ''Ma'' @ [0x11F] @ js ''aza '' @ [0xDC] @ js ''r'' @ [0xFC] @ js ''nleri'') \<and>
   (\<not> truthy (cfg_description cfg) \<longrightarrow>
      ch_description (rss_channel (rssObject rt products cfg))
        = js ''Ma'' @ [0x11F] @ js ''azam'' @ [0x131] @ js ''zdaki t'' @ [0xFC] @ js ''m ''
            @ [0xFC] @ js ''r'' @ [0xFC] @ js ''nler'') \<and>
   (\<not> truthy (cfg_link cfg) \<longrightarrow>
      ch_link (rss_channel (rssObject rt products cfg)) = js ''https://shop.myshopify.com'') \<and>
   (\<not> truthy (cfg_language cfg) \<longrightarrow>
      ch_language (rss_channel (rssObject rt products cfg)) = js ''tr'')"
  by (auto simp: rssObject_def truthy_def or_default_def default_title_def
      default_description_def split: option.splits)

theorem rssObject_channel_defaults_witness:
  "\<not> truthy (cfg_title empty_config) \<and> \<not> truthy (cfg_description empty_config) \<and>
   \<not> truthy (cfg_link empty_config) \<and> \<not> truthy (cfg_language empty_config) \<and>
   ch_title (rss_channel (rssObject example_runtime [] empty_config))
     = js ''Ma'' @ [0x11F] @ js ''aza '' @ [0xDC] @ js ''r'' @ [0xFC] @ js ''nleri'' \<and>
   ch_description (rss_channel (rssObject example_runtime [] empty_config))
     = js ''Ma'' @ [0x11F] @ js ''azam'' @ [0x131] @ js ''zdaki t'' @ [0xFC] @ js ''m ''
         @ [0xFC] @ js ''r'' @ [0xFC] @ js ''nler'' \<and>
   ch_link (rss_channel (rssObject example_runtime [] empty_config))
     = js ''https://shop.myshopify.com'' \<and>
   ch_language (rss_channel (rssObject example_runtime [] empty_config)) = js ''tr''"
  using rssObject_channel_defaults [of empty_config example_runtime "[]"]
  by (simp add: truthy_def empty_config_def)

text \<open>
  With no title and no description configured, the channel's title is not the string
  \<open>'Store Products'\<close> and its description is not \<open>'All products in our store'\<close>.
\<close>

theorem default_title_counterexample:
  "\<not> truthy (cfg_title empty_config) \<and>
   ch_title (rss_channel (rssObject example_runtime [] empty_config)) \<noteq> js ''Store Products'' \<and>
   \<not> truthy (cfg_description empty_config) \<and>
   ch_description (rss_channel (rssObject example_runtime [] empty_config))
     \<noteq> js ''All products in our store''"
  by (simp add: rssObject_def truthy_def or_default_def default_title_def
      default_description_def empty_config_def js_def)

section \<open>One item per product\<close>

text \<open>
  C2. The object \<open>generateRSS\<close> hands to the XML builder has, under \<open>item\<close>, exactly one
  entry per product of the input list, in the input's order: the entry at index \<open>i\<close> is
  \<open>createRSSItem\<close> of the product at index \<open>i\<close>. Nothing is filtered, duplicated or
  sorted.
\<close>

theorem generateRSS_one_item_per_product:
  "generateRSS rt products cfg = buildObject rt (rssObject rt products cfg) \<and>
   length (item (rss_channel (rssObject rt products cfg))) = length products \<and>
   (\<forall>i<length products.
      item (rss_channel (rssObject rt products cfg)) ! i = createRSSItem rt (products ! i) cfg)"
  by (simp add: generateRSS_def rssObject_def)

theorem generateRSS_one_item_per_product_witness:
  "length (item (rss_channel (rssObject example_runtime [example_product, minimal_product]
      empty_config))) = 2 \<and>
   item_link (item (rss_channel (rssObject example_runtime [example_product, minimal_product]
      empty_config)) ! 0) = js ''https://shop.myshopify.com/products/mug'' \<and>
   item_link (item (rss_channel (rssObject example_runtime [example_product, minimal_product]
      empty_config)) ! 1) = js ''https://shop.myshopify.com/products/cup''"
  using generateRSS_one_item_per_product
    [of example_runtime "[example_product, minimal_product]" empty_config]
  by (simp add: createRSSItem_link or_default_def empty_config_def example_product_def
      minimal_product_def js_def)

section \<open>Images of an item\<close>

text \<open>
  C7. A product with no images (the property missing, or an empty array) gives an item
  with neither \<open>media:content\<close> nor \<open>media:thumbnail\<close>. A product with one or more
  images gives one \<open>media:content\<close> entry per image, in order, with the image's URL,
  type \<open>image/jpeg\<close> and medium \<open>image\<close>, and a \<open>media:thumbnail\<close> with the URL of the
  first image.
\<close>

theorem createRSSItem_media_fields:
  "(images p = None \<or> images p = Some [] \<longrightarrow>
      item_media_content (createRSSItem rt p cfg) = None \<and>
      item_media_thumbnail (createRSSItem rt p cfg) = None) \<and>
   (images p = Some imgs \<and> imgs \<noteq> [] \<longrightarrow>
      item_media_content (createRSSItem rt p cfg) =
        Some (map (\<lambda>image. \<lparr> url = src image, mime_type = js ''image/jpeg'',
                                medium = js ''image'' \<rparr>) imgs) \<and>
      item_media_thumbnail (createRSSItem rt p cfg) = Some (src (imgs ! 0)))"
proof -
  have "item_media_content (createRSSItem rt p cfg) = None \<and>
      item_media_thumbnail (createRSSItem rt p cfg) = None"
    if "images p = None \<or> images p = Some []"
    using that by (auto simp: createRSSItem_media)
  moreover have "item_media_content (createRSSItem rt p cfg) =
        Some (map (\<lambda>image. \<lparr> url = src image, mime_type = js ''image/jpeg'',
                                medium = js ''image'' \<rparr>) imgs) \<and>
      item_media_thumbnail (createRSSItem rt p cfg) = Some (src (imgs ! 0))"
    if "images p = Some imgs" "imgs \<noteq> []"
  proof -
    from that obtain first others where "imgs = first # others" by (cases imgs) auto
    with that(1) show ?thesis by (simp add: createRSSItem_media)
  qed
  ultimately show ?thesis by blast
qed

theorem createRSSItem_media_fields_witness:
  "images minimal_product = None \<and>
   item_media_content (createRSSItem example_runtime minimal_product empty_config) = None \<and>
   item_media_thumbnail (createRSSItem example_runtime minimal_product empty_config) = None \<and>
   images example_product
     = Some [\<lparr> src = js ''https://cdn/mug-1.png'' \<rparr>, \<lparr> src = js ''https://cdn/mug-2.png'' \<rparr>] \<and>
   item_media_content (createRSSItem example_runtime example_product empty_config)
     = Some [\<lparr> url = js ''https://cdn/mug-1.png'', mime_type = js ''image/jpeg'',
               medium = js ''image'' \<rparr>,
             \<lparr> url = js ''https://cdn/mug-2.png'', mime_type = js ''image/jpeg'',
               medium = js ''image'' \<rparr>] \<and>
   item_media_thumbnail (createRSSItem example_runtime example_product empty_config)
     = Some (js ''https://cdn/mug-1.png'')"
  using createRSSItem_media_fields [of minimal_product example_runtime empty_config "[]"]
    createRSSItem_media_fields [of example_product example_runtime empty_config
      "[\<lparr> src = js ''https://cdn/mug-1.png'' \<rparr>, \<lparr> src = js ''https://cdn/mug-2.png'' \<rparr>]"]
  by (simp add: minimal_product_def example_product_def)

section \<open>Tags of an item\<close>

text \<open>
  C8, as the code has it. For the tags \<open>'a, b ,c'\<close> the subjects are \<open>a\<close>, \<open>b\<close>, \<open>c\<close>.
  In general the subjects of a non-empty tags string are its segments between commas,
  in order, each trimmed; every segment gives an entry, an empty one included. With the
  tags missing or empty the item has no subject field.
\<close>

theorem createRSSItem_subjects:
  "(tags p = Some (js ''a, b ,c'') \<longrightarrow>
      dc_subject (createRSSItem rt p cfg) = Some [js ''a'', js ''b'', js ''c'']) \<and>
   (tags p = Some t \<and> t \<noteq> [] \<longrightarrow>
      (\<exists>segments. join_commas segments = t \<and>
         (\<forall>seg\<in>set segments. of_char CHR '','' \<notin> set seg) \<and>
         dc_subject (createRSSItem rt p cfg) = Some (map trim segments))) \<and>
   (tags p = None \<or> tags p = Some [] \<longrightarrow> dc_subject (createRSSItem rt p cfg) = None)"
proof -
  have "map trim (split_commas (js ''a, b ,c'')) = [js ''a'', js ''b'', js ''c'']"
    by (simp add: js_def trim_def is_space_def)
  then have "dc_subject (createRSSItem rt p cfg) = Some [js ''a'', js ''b'', js ''c'']"
    if "tags p = Some (js ''a, b ,c'')"
    using that by (simp add: createRSSItem_dc_subject js_def)
  moreover have "\<exists>segments. join_commas segments = t \<and>
         (\<forall>seg\<in>set segments. of_char CHR '','' \<notin> set seg) \<and>
         dc_subject (createRSSItem rt p cfg) = Some (map trim segments)"
    if "tags p = Some t" "t \<noteq> []"
  proof -
    have "dc_subject (createRSSItem rt p cfg) = Some (map trim (split_commas t))"
      using that by (simp add: createRSSItem_dc_subject)
    then show ?thesis
      using join_split_commas [of t] split_commas_no_comma [of _ t] by blast
  qed
  moreover have "dc_subject (createRSSItem rt p cfg) = None"
    if "tags p = None \<or> tags p = Some []"
    using that by (auto simp: createRSSItem_dc_subject)
  ultimately show ?thesis by blast
qed

theorem createRSSItem_subjects_witness:
  "tags example_product = Some (js ''a, b ,c'') \<and>
   dc_subject (createRSSItem example_runtime example_product empty_config)
     = Some [js ''a'', js ''b'', js ''c''] \<and>
   tags minimal_product = None \<and>
   dc_subject (createRSSItem example_runtime minimal_product empty_config) = None"
  using createRSSItem_subjects [of example_product example_runtime empty_config "js ''a, b ,c''"]
    createRSSItem_subjects [of minimal_product example_runtime empty_config "[]"]
  by (simp add: minimal_product_def example_product_def)

text \<open>
  The empty segment behind a trailing comma is not dropped: the tags \<open>'a,b,'\<close> give three
  subjects, the last one empty.
\<close>

theorem trailing_comma_counterexample:
  "dc_subject (createRSSItem example_runtime (example_product \<lparr> tags := Some (js ''a,b,'') \<rparr>)
      empty_config) = Some [js ''a'', js ''b'', []]
   \<and> dc_subject (createRSSItem example_runtime (example_product \<lparr> tags := Some (js ''a,b,'') \<rparr>)
      empty_config) \<noteq> Some [js ''a'', js ''b'']"
  by (simp add: createRSSItem_dc_subject js_def trim_def is_space_def)

text \<open>
  C10. For a non-empty tags string the item has one subject per segment, that is one
  more than the string has commas: no token is filtered out. A trailing comma gives an
  empty last subject, two commas in a row give an empty subject, \<open>'a,b,'\<close> gives
  \<open>a\<close>, \<open>b\<close> and the empty string, and \<open>'a,,b,'\<close> gives \<open>a\<close>, the empty string,
  \<open>b\<close> and the empty string.
\<close>

theorem createRSSItem_keeps_empty_tags:
  assumes "tags p = Some t" and "t \<noteq> []"
  shows "\<exists>subjects. dc_subject (createRSSItem rt p cfg) = Some subjects \<and>
           length subjects = Suc (count_list t (of_char CHR '','')) \<and>
           (last t = of_char CHR '','' \<longrightarrow> last subjects = []) \<and>
           (sublist (js '',,'') t \<longrightarrow> [] \<in> set subjects) \<and>
           (t = js ''a,b,'' \<longrightarrow> subjects = [js ''a'', js ''b'', []]) \<and>
           (t = js ''a,,b,'' \<longrightarrow> subjects = [js ''a'', [], js ''b'', []])"
proof -
  let ?subjects = "map trim (split_commas t)"
  have "dc_subject (createRSSItem rt p cfg) = Some ?subjects"
    using assms by (simp add: createRSSItem_dc_subject)
  moreover have "length ?subjects = Suc (count_list t (of_char CHR '',''))"
    by (simp add: length_split_commas)
  moreover have "last ?subjects = []" if "last t = of_char CHR '',''"
    using that assms(2) last_split_commas [of t] by (simp add: last_map)
  moreover have "[] \<in> set ?subjects" if "sublist (js '',,'') t"
  proof -
    from that have "[] \<in> set (tl (split_commas t))"
      using double_comma_split [of t] by (simp add: js_def)
    then have "[] \<in> set (split_commas t)" by (rule list.set_sel(2) [rotated]) simp
    then have "trim [] \<in> set ?subjects" by (simp only: set_map) (rule imageI)
    then show ?thesis by simp
  qed
  moreover have "?subjects = [js ''a'', js ''b'', []]" if "t = js ''a,b,''"
    unfolding that by (simp add: js_def trim_def is_space_def)
  moreover have "?subjects = [js ''a'', [], js ''b'', []]" if "t = js ''a,,b,''"
    unfolding that by (simp add: js_def trim_def is_space_def)
  ultimately show ?thesis by (intro exI [of _ ?subjects] conjI impI)
qed

theorem createRSSItem_keeps_empty_tags_witness:
  "tags (minimal_product \<lparr> tags := Some (js ''a,,b,'') \<rparr>) = Some (js ''a,,b,'') \<and>
   js ''a,,b,'' \<noteq> [] \<and>
   dc_subject (createRSSItem example_runtime (minimal_product \<lparr> tags := Some (js ''a,,b,'') \<rparr>)
      empty_config) = Some [js ''a'', [], js ''b'', []]"
proof -
  have 1: "tags (minimal_product \<lparr> tags := Some (js ''a,,b,'') \<rparr>) = Some (js ''a,,b,'')"
    by simp
  have 2: "js ''a,,b,'' \<noteq> []" by (simp add: js_def)
  from createRSSItem_keeps_empty_tags [OF 1 2, of example_runtime empty_config]
  obtain subjects where
    "dc_subject (createRSSItem example_runtime (minimal_product \<lparr> tags := Some (js ''a,,b,'') \<rparr>)
       empty_config) = Some subjects"
    and "js ''a,,b,'' = js ''a,,b,'' \<longrightarrow> subjects = [js ''a'', [], js ''b'', []]"
    by (elim exE conjE)
  with 1 2 show ?thesis by (simp only: simp_thms)
qed

section \<open>The routes without configuration\<close>

text \<open>
  C6. On each of the three data routes (\<open>/rss\<close>, \<open>/rss/pinterest\<close>,
  \<open>/api/products/count\<close>), when the shop domain or the access token is missing from the
  environment (or empty), the response is the 500 with the fixed \<open>error\<close> and \<open>message\<close>
  fields, and the route has made no outbound request: \<open>getAllProducts\<close> is not called.
\<close>

theorem routes_config_missing:
  assumes "\<not> truthy (SHOPIFY_SHOP_DOMAIN e) \<or> \<not> truthy (SHOPIFY_ACCESS_TOKEN e)"
    and "route = rss_route \<or> route = pinterest_route \<or> route = count_route"
  shows "fst (route rt e) =
           \<lparr> status = 500, content_type = None,
             body = Error_json config_missing_error config_missing_message \<rparr>
         \<and> snd (route rt e) = []"
  using assms by (auto simp: rss_route_def pinterest_route_def count_route_def)

theorem routes_config_missing_witness:
  "\<not> truthy (SHOPIFY_SHOP_DOMAIN (example_env \<lparr> SHOPIFY_SHOP_DOMAIN := None \<rparr>)) \<and>
   status (fst (rss_route example_runtime (example_env \<lparr> SHOPIFY_SHOP_DOMAIN := None \<rparr>))) = 500 \<and>
   snd (rss_route example_runtime (example_env \<lparr> SHOPIFY_SHOP_DOMAIN := None \<rparr>)) = [] \<and>
   \<not> truthy (SHOPIFY_ACCESS_TOKEN (example_env \<lparr> SHOPIFY_ACCESS_TOKEN := Some [] \<rparr>)) \<and>
   status (fst (count_route example_runtime (example_env \<lparr> SHOPIFY_ACCESS_TOKEN := Some [] \<rparr>))) = 500 \<and>
   snd (count_route example_runtime (example_env \<lparr> SHOPIFY_ACCESS_TOKEN := Some [] \<rparr>)) = [] \<and>
   status (fst (count_route example_runtime example_env)) = 200 \<and>
   length (snd (count_route example_runtime example_env)) = 1"
proof -
  have 1: "\<not> truthy (SHOPIFY_SHOP_DOMAIN (example_env \<lparr> SHOPIFY_SHOP_DOMAIN := None \<rparr>))"
    by (simp add: truthy_def)
  have 2: "\<not> truthy (SHOPIFY_ACCESS_TOKEN (example_env \<lparr> SHOPIFY_ACCESS_TOKEN := Some [] \<rparr>))"
    by (simp add: truthy_def)
  have 3: "status (fst (count_route example_runtime example_env)) = 200 \<and>
      length (snd (count_route example_runtime example_env)) = 1"
    by (simp add: count_route_def example_env_def example_runtime_def truthy_def
        getAllProducts_def js_def Let_def)
  from 1 have "status (fst (rss_route example_runtime (example_env \<lparr> SHOPIFY_SHOP_DOMAIN := None \<rparr>))) = 500 \<and>
      snd (rss_route example_runtime (example_env \<lparr> SHOPIFY_SHOP_DOMAIN := None \<rparr>)) = []"
    using routes_config_missing [of "example_env \<lparr> SHOPIFY_SHOP_DOMAIN := None \<rparr>" rss_route example_runtime]
    by simp
  moreover from 2 have "status (fst (count_route example_runtime (example_env \<lparr> SHOPIFY_ACCESS_TOKEN := Some [] \<rparr>))) = 500 \<and>
      snd (count_route example_runtime (example_env \<lparr> SHOPIFY_ACCESS_TOKEN := Some [] \<rparr>)) = []"
    using routes_config_missing [of "example_env \<lparr> SHOPIFY_ACCESS_TOKEN := Some [] \<rparr>" count_route example_runtime]
    by simp
  ultimately show ?thesis using 1 2 3 by (simp only: simp_thms)
qed

section \<open>The Pinterest route\<close>

text \<open>
  C9. For every environment and every upstream answer, \<open>/rss/pinterest\<close> makes the same
  outbound request as \<open>/rss\<close>, answers with the same status and Content-Type, and sends a
  feed exactly when \<open>/rss\<close> does, the same document: on the success path the two routes
  agree entirely. (They differ in the \<open>error\<close> label of the 500 of a failed upstream call
  or build only.) Both routes read the clock through the same \<open>runtime\<close>, so the
  comparison is at one instant.
\<close>

theorem pinterest_route_same_feed:
  "snd (pinterest_route rt e) = snd (rss_route rt e) \<and>
   status (fst (pinterest_route rt e)) = status (fst (rss_route rt e)) \<and>
   content_type (fst (pinterest_route rt e)) = content_type (fst (rss_route rt e)) \<and>
   (body (fst (pinterest_route rt e)) = Feed doc \<longleftrightarrow> body (fst (rss_route rt e)) = Feed doc) \<and>
   (status (fst (rss_route rt e)) = 200 \<longrightarrow> pinterest_route rt e = rss_route rt e)"
  by (auto simp: rss_route_def pinterest_route_def Let_def split: prod.splits sum.splits)

theorem pinterest_route_same_feed_witness:
  "status (fst (rss_route example_runtime example_env)) = 200 \<and>
   body (fst (rss_route example_runtime example_env)) = Feed (js ''Demo'') \<and>
   pinterest_route example_runtime example_env = rss_route example_runtime example_env"
proof -
  have "status (fst (rss_route example_runtime example_env)) = 200 \<and>
      body (fst (rss_route example_runtime example_env)) = Feed (js ''Demo'')"
    by (simp add: rss_route_def example_env_def example_runtime_def truthy_def
        getAllProducts_def generateRSS_def rssObject_def or_default_def js_def Let_def)
  with pinterest_route_same_feed [of example_runtime example_env "js ''Demo''"]
  show ?thesis by (simp only: simp_thms)
qed

section \<open>Facts about the entity passes\<close>










lemma unat_of_char: "unat (of_char c :: jschar) = of_char c"
proof -
  have "(of_char c :: nat) < 65536" using nat_of_char_less_256 [of c] by arith
  then have "unat (of_nat (of_char c) :: jschar) = of_char c" by (simp add: unat_of_nat)
  then show ?thesis by (simp add: of_nat_of_char)
qed

lemma inj_of_char_jschar: "inj (of_char :: char \<Rightarrow> jschar)"
proof (rule injI)
  fix c d :: char
  assume "(of_char c :: jschar) = of_char d"
  then have "unat (of_char c :: jschar) = unat (of_char d :: jschar)" by simp
  then have "(of_char c :: nat) = of_char d" by (simp only: unat_of_char)
  then show "c = d" by simp
qed

lemma js_eq_iff [simp]: "js a = js b \<longleftrightarrow> a = b"
  by (simp add: js_def inj_map_eq_map inj_of_char_jschar)

















section \<open>The six entities\<close>




end
